theory Spec2Isabelle
  imports Complex_Main
begin

section \<open>Constants and types (App.tsx, lines 10-31)\<close>

text \<open>
  The game keeps its counters in JavaScript numbers that only ever hold integers
  (initial values 0, 1, 2, 30 and the updates +1, -1, -3), so they are modelled as
  \<open>int\<close>. Colour channels take fractional values once the difference is added, and
  the difference is computed with \<open>Math.log2\<close> and a division: they are modelled as
  \<open>real\<close>, that is, double arithmetic is idealised as exact real arithmetic.
\<close>

definition INITIAL_TIME :: int where
  "INITIAL_TIME = 30"

definition INITIAL_GRID_SIZE :: int where
  "INITIAL_GRID_SIZE = 2"

definition MAX_GRID_SIZE :: int where
  "MAX_GRID_SIZE = 8"

definition BASE_DIFFERENCE :: real where
  "BASE_DIFFERENCE = 40"

datatype status = idle | playing | gameover

record GameState =
  score :: int
  timeLeft :: int
  level :: int
  status :: status
  gridSize :: int

record Color =
  h :: real
  s :: real
  l :: real

text \<open>The \<open>colors\<close> state of the component: \<open>{ base, diff, diffIndex }\<close>.\<close>

record LevelColors =
  base :: Color
  diff :: Color
  diffIndex :: int

text \<open>
  Every call of \<open>Math.random()\<close> is an explicit input. One level generation makes five
  calls, in this order: hue, saturation and lightness of the base colour (the object
  literal of \<open>generateRandomColor\<close> is evaluated top to bottom), the channel choice of
  \<open>getDifferentColor\<close>, and the cell index of \<open>generateLevel\<close>.
\<close>

record draws =
  r_h :: real
  r_s :: real
  r_l :: real
  r_change :: real
  r_index :: real

text \<open>\<open>Math.random()\<close> returns a number in the half-open interval from 0 to 1.\<close>

definition unit_draw :: "real \<Rightarrow> bool" where
  "unit_draw r = (0 \<le> r \<and> r < 1)"

definition valid_draws :: "draws \<Rightarrow> bool" where
  "valid_draws d =
     (unit_draw (r_h d) \<and> unit_draw (r_s d) \<and> unit_draw (r_l d) \<and>
      unit_draw (r_change d) \<and> unit_draw (r_index d))"

text \<open>
  The component's state: the two \<open>useState\<close> cells and, for \<open>timerRef\<close>, whether an
  interval is currently scheduled (set by \<open>setInterval\<close>, cleared by \<open>clearInterval\<close>).
\<close>

record App =
  gameState :: GameState
  colors :: LevelColors
  intervalActive :: bool

section \<open>Helper functions (App.tsx, lines 78-93)\<close>

definition generateRandomColor :: "real \<Rightarrow> real \<Rightarrow> real \<Rightarrow> Color" where
  "generateRandomColor r1 r2 r3 =
     \<lparr> h = of_int \<lfloor>r1 * 360\<rfloor>,
       s = of_int \<lfloor>r2 * 40\<rfloor> + 40,
       l = of_int \<lfloor>r3 * 40\<rfloor> + 30 \<rparr>"

text \<open>The local constant \<open>diff\<close> of \<open>getDifferentColor\<close>, as a function of the level.\<close>

definition diff_magnitude :: "int \<Rightarrow> real" where
  "diff_magnitude lvl =
     max 2 (BASE_DIFFERENCE / (1 + log 2 (of_int lvl + 1) * 0.8))"

definition getDifferentColor :: "Color \<Rightarrow> int \<Rightarrow> real \<Rightarrow> Color" where
  "getDifferentColor b lvl r =
     (let d = diff_magnitude lvl;
          changeLightness = (r > 0.5)
      in b \<lparr> l := (if changeLightness
                    then (if l b + d > 90 then l b - d else l b + d)
                    else l b),
             s := (if \<not> changeLightness
                    then (if s b + d > 90 then s b - d else s b + d)
                    else s b) \<rparr>)"

section \<open>The component's handlers (App.tsx, lines 118-177)\<close>

text \<open>The local constant \<open>newGridSize\<close> of \<open>generateLevel\<close>.\<close>

definition newGridSize :: "int \<Rightarrow> int" where
  "newGridSize lvl =
     min MAX_GRID_SIZE (INITIAL_GRID_SIZE + \<lfloor>real_of_int lvl / 3\<rfloor>)"

definition generateLevel :: "int \<Rightarrow> draws \<Rightarrow> App \<Rightarrow> App" where
  "generateLevel lvl d a =
     (let b = generateRandomColor (r_h d) (r_s d) (r_l d);
          v = getDifferentColor b lvl (r_change d);
          g = newGridSize lvl;
          i = \<lfloor>r_index d * real_of_int (g * g)\<rfloor>
      in a \<lparr> colors := \<lparr> base = b, diff = v, diffIndex = i \<rparr>,
             gameState := (gameState a) \<lparr> gridSize := g \<rparr> \<rparr>)"

definition startGame :: "draws \<Rightarrow> App \<Rightarrow> App" where
  "startGame d a =
     generateLevel 1 d
       (a \<lparr> gameState :=
              \<lparr> score = 0, timeLeft = INITIAL_TIME, level = 1,
                status = playing, gridSize = INITIAL_GRID_SIZE \<rparr> \<rparr>)"

text \<open>
  Every event is handled after the render of the previous one, so the \<open>gameState\<close> and
  \<open>colors\<close> the handler closes over are the current ones, and the updater functions
  passed to \<open>setGameState\<close> are applied to that same state, in the order of the calls.
\<close>

definition handleBlockClick :: "int \<Rightarrow> draws \<Rightarrow> App \<Rightarrow> App" where
  "handleBlockClick index d a =
     (if status (gameState a) \<noteq> playing then a
      else if index = diffIndex (colors a) then
        (let nextLevel = level (gameState a) + 1
         in generateLevel nextLevel d
              (a \<lparr> gameState := (gameState a)
                     \<lparr> score := score (gameState a) + 1,
                       level := nextLevel,
                       timeLeft := timeLeft (gameState a) + 1 \<rparr> \<rparr>))
      else a \<lparr> gameState := (gameState a)
                 \<lparr> timeLeft := max 0 (timeLeft (gameState a) - 3) \<rparr> \<rparr>)"

text \<open>The callback given to \<open>setInterval\<close> (lines 161-169).\<close>

definition intervalCallback :: "App \<Rightarrow> App" where
  "intervalCallback a =
     (if timeLeft (gameState a) \<le> 1
      then a \<lparr> intervalActive := False,
               gameState := (gameState a) \<lparr> timeLeft := 0, status := gameover \<rparr> \<rparr>
      else a \<lparr> gameState := (gameState a)
                 \<lparr> timeLeft := timeLeft (gameState a) - 1 \<rparr> \<rparr>)"

text \<open>
  The effect of lines 159-177 has the dependency list \<open>[gameState.status]\<close>: it runs
  again only when the status differs from the one of the previous render. Its cleanup
  clears the interval; its body schedules a new one when the status is playing and time
  is left, and clears it otherwise.
\<close>

definition timerEffect :: "status \<Rightarrow> App \<Rightarrow> App" where
  "timerEffect old a =
     (if status (gameState a) = old then a
      else a \<lparr> intervalActive :=
                 (status (gameState a) = playing \<and> 0 < timeLeft (gameState a)) \<rparr>)"

text \<open>The argument of \<open>colorToCss\<close> for each rendered cell (lines 257-265).\<close>

definition gridCells :: "App \<Rightarrow> Color list" where
  "gridCells a =
     map (\<lambda>i. if int i = diffIndex (colors a) then diff (colors a) else base (colors a))
       [0 ..< nat (gridSize (gameState a) * gridSize (gameState a))]"

section \<open>Events\<close>

text \<open>
  The three inputs of the component: a click on a start button, a click on cell \<open>i\<close>,
  and a firing of the interval, which happens only while an interval is scheduled.
  The two clicks carry the random numbers a level generation would draw.
\<close>

datatype event = Start draws | Select int draws | Tick

fun step :: "event \<Rightarrow> App \<Rightarrow> App" where
  "step (Start d) a = timerEffect (status (gameState a)) (startGame d a)"
| "step (Select i d) a = timerEffect (status (gameState a)) (handleBlockClick i d a)"
| "step Tick a =
     (if intervalActive a
      then timerEffect (status (gameState a)) (intervalCallback a)
      else a)"

fun run :: "event list \<Rightarrow> App \<Rightarrow> App" where
  "run [] a = a"
| "run (e # es) a = run es (step e a)"

fun is_start :: "event \<Rightarrow> bool" where
  "is_start (Start d) = True"
| "is_start (Select i d) = False"
| "is_start Tick = False"

fun valid_event :: "event \<Rightarrow> bool" where
  "valid_event (Start d) = valid_draws d"
| "valid_event (Select i d) = valid_draws d"
| "valid_event Tick = True"

text \<open>The initial values of the two \<open>useState\<close> calls (lines 101-113); no interval yet.\<close>

definition initialApp :: App where
  "initialApp =
     \<lparr> gameState = \<lparr> score = 0, timeLeft = INITIAL_TIME, level = 1,
                     status = idle, gridSize = INITIAL_GRID_SIZE \<rparr>,
       colors = \<lparr> base = \<lparr> h = 0, s = 0, l = 0 \<rparr>,
                  diff = \<lparr> h = 0, s = 0, l = 0 \<rparr>,
                  diffIndex = - 1 \<rparr>,
       intervalActive = False \<rparr>"

text \<open>Draws used in the worked examples below.\<close>

definition halves :: draws where
  "halves = \<lparr> r_h = 1/2, r_s = 1/2, r_l = 1/2, r_change = 1/2, r_index = 1/2 \<rparr>"

text \<open>A list of events that are all selections of a cell other than the variant one.\<close>

fun wrong_clicks :: "App \<Rightarrow> event list \<Rightarrow> bool" where
  "wrong_clicks a [] = True"
| "wrong_clicks a (Select i d # es) = (i \<noteq> diffIndex (colors a) \<and> wrong_clicks a es)"
| "wrong_clicks a (e # es) = False"

text \<open>
  A state with two seconds left: a start, nine selections of cell 0 while the variant
  is cell 2 (30 down to 3), and one tick.
\<close>

definition nearlyOut :: App where
  "nearlyOut = step Tick (run (replicate 9 (Select 0 halves)) (step (Start halves) initialApp))"

text \<open>
  What holds of a generated level: the grid size is the one of the level, the variant
  index is a cell of the grid, and the variant colour is not the base colour.
\<close>

definition level_ok :: "App \<Rightarrow> bool" where
  "level_ok a =
     (1 \<le> level (gameState a)
      \<and> gridSize (gameState a) = newGridSize (level (gameState a))
      \<and> 0 \<le> diffIndex (colors a)
      \<and> diffIndex (colors a) < gridSize (gameState a) * gridSize (gameState a)
      \<and> diff (colors a) \<noteq> base (colors a))"

section \<open>Grid size\<close>

lemma newGridSize_div: "newGridSize lvl = min 8 (2 + lvl div 3)"
proof -
  have "\<lfloor>real_of_int lvl / 3\<rfloor> = lvl div 3"
    using floor_divide_of_int_eq [of lvl 3, where ?'a = real] by simp
  then show ?thesis
    by (simp add: newGridSize_def MAX_GRID_SIZE_def INITIAL_GRID_SIZE_def)
qed

lemma newGridSize_pos: "1 \<le> lvl \<Longrightarrow> 2 \<le> newGridSize lvl"
  unfolding newGridSize_div by simp

text \<open>
  C6. For every level \<open>L\<close> of at least 1, the grid size computed for \<open>L\<close> equals
  \<open>min(8, 2 + floor(L/3))\<close>, lies between 2 and 8, does not decrease when the level
  grows, and is 8 exactly from level 18 on; it is 5 at level 9 and 8 at level 19.
\<close>

theorem grid_size_for_level:
  assumes "1 \<le> L"
  shows "newGridSize L = min 8 (2 + \<lfloor>real_of_int L / 3\<rfloor>)
       \<and> 2 \<le> newGridSize L \<and> newGridSize L \<le> 8
       \<and> (\<forall>L'. L \<le> L' \<longrightarrow> newGridSize L \<le> newGridSize L')
       \<and> (newGridSize L = 8) = (18 \<le> L)
       \<and> newGridSize 9 = 5 \<and> newGridSize 19 = 8"
proof -
  have a: "newGridSize L = min 8 (2 + \<lfloor>real_of_int L / 3\<rfloor>)"
    by (simp add: newGridSize_def MAX_GRID_SIZE_def INITIAL_GRID_SIZE_def)
  have b: "2 \<le> newGridSize L" using assms by (rule newGridSize_pos)
  have c: "newGridSize L \<le> 8" unfolding newGridSize_div by simp
  have d: "\<forall>L'. L \<le> L' \<longrightarrow> newGridSize L \<le> newGridSize L'"
  proof (intro allI impI)
    fix L' :: int
    assume "L \<le> L'"
    then have "L div 3 \<le> L' div 3" by (rule zdiv_mono1) simp
    then show "newGridSize L \<le> newGridSize L'" unfolding newGridSize_div by simp
  qed
  have e: "(newGridSize L = 8) = (18 \<le> L)" unfolding newGridSize_div by auto
  have f: "newGridSize 9 = 5" "newGridSize 19 = 8" unfolding newGridSize_div by simp_all
  from a b c d e f show ?thesis by blast
qed

theorem grid_size_for_level_witness:
  "(1::int) \<le> 4 \<and> newGridSize 4 = 3 \<and> newGridSize 4 \<le> newGridSize 7 \<and> newGridSize 4 \<noteq> 8"
proof -
  have p: "(1::int) \<le> 4" by simp
  note t = grid_size_for_level [OF p]
  from t have "newGridSize 4 = min 8 (2 + \<lfloor>real_of_int 4 / 3\<rfloor>)" by blast
  then have a: "newGridSize 4 = 3" by simp
  from t have "\<forall>L'. 4 \<le> L' \<longrightarrow> newGridSize 4 \<le> newGridSize L'" by blast
  then have b: "newGridSize 4 \<le> newGridSize 7" by simp
  from t have "(newGridSize 4 = 8) = ((18::int) \<le> 4)" by blast
  then have c: "newGridSize 4 \<noteq> 8" by simp
  from p a b c show ?thesis by blast
qed

section \<open>Starting a game\<close>

lemma started_gameState:
  "gameState (step (Start d) a) =
     \<lparr> score = 0, timeLeft = 30, level = 1, status = playing, gridSize = 2 \<rparr>"
  by (simp add: startGame_def generateLevel_def timerEffect_def Let_def newGridSize_div
        INITIAL_TIME_def INITIAL_GRID_SIZE_def)

lemma started_colors:
  "colors (step (Start d) a) =
     \<lparr> base = generateRandomColor (r_h d) (r_s d) (r_l d),
       diff = getDifferentColor (generateRandomColor (r_h d) (r_s d) (r_l d)) 1 (r_change d),
       diffIndex = \<lfloor>r_index d * 4\<rfloor> \<rparr>"
  by (simp add: startGame_def generateLevel_def timerEffect_def Let_def newGridSize_div)

lemma started_interval:
  "intervalActive (step (Start d) a) = (status (gameState a) = playing \<longrightarrow> intervalActive a)"
  by (simp add: startGame_def generateLevel_def timerEffect_def Let_def newGridSize_div
        INITIAL_TIME_def)

lemma started_diffIndex_halves: "diffIndex (colors (step (Start halves) a)) = 2"
  by (simp add: started_colors halves_def del: step.simps)

section \<open>Cell selection\<close>

text \<open>
  C9. In a state whose status is idle or gameover, a selection of any cell index is a
  no-op: the handler returns the whole component state unchanged (score, timeLeft,
  level, status, gridSize, the colours and the timer), and so does the event.
\<close>

theorem select_ignored_unless_playing:
  assumes "status (gameState a) = idle \<or> status (gameState a) = gameover"
  shows "handleBlockClick i d a = a \<and> step (Select i d) a = a"
  using assms by (auto simp: handleBlockClick_def timerEffect_def)

theorem select_ignored_unless_playing_witness:
  "status (gameState initialApp) = idle
   \<and> handleBlockClick 0 halves initialApp = initialApp
   \<and> step (Select (- 1) halves) initialApp = initialApp"
proof -
  have p: "status (gameState initialApp) = idle" by (simp add: initialApp_def)
  then have q: "status (gameState initialApp) = idle \<or> status (gameState initialApp) = gameover" by simp
  from select_ignored_unless_playing [OF q, of 0 halves]
       select_ignored_unless_playing [OF q, of "- 1" halves] p
  show ?thesis by blast
qed

section \<open>Incorrect selections\<close>

lemma wrong_click:
  "status (gameState a) = playing \<Longrightarrow> i \<noteq> diffIndex (colors a) \<Longrightarrow>
   handleBlockClick i d a =
     a \<lparr> gameState := (gameState a) \<lparr> timeLeft := max 0 (timeLeft (gameState a) - 3) \<rparr> \<rparr>"
  by (simp add: handleBlockClick_def)

lemma step_Select: "step (Select i d) a = handleBlockClick i d a"
  by (simp add: timerEffect_def handleBlockClick_def generateLevel_def Let_def)

lemma run_wrong_clicks:
  "status (gameState a) = playing \<Longrightarrow> wrong_clicks a es \<Longrightarrow>
   \<exists>t. run es a = a \<lparr> gameState := (gameState a) \<lparr> timeLeft := t \<rparr> \<rparr>
       \<and> (es \<noteq> [] \<longrightarrow> 0 \<le> t) \<and> (0 \<le> timeLeft (gameState a) \<longrightarrow> 0 \<le> t)"
proof (induction es arbitrary: a)
  case Nil
  then show ?case by (intro exI [of _ "timeLeft (gameState a)"]) simp
next
  case (Cons e es)
  then obtain i d where e: "e = Select i d" and i: "i \<noteq> diffIndex (colors a)"
    and rest: "wrong_clicks a es"
    by (cases e) auto
  let ?a = "a \<lparr> gameState := (gameState a) \<lparr> timeLeft := max 0 (timeLeft (gameState a) - 3) \<rparr> \<rparr>"
  have st: "step e a = ?a"
    using Cons.prems(1) i by (simp add: e step_Select wrong_click del: step.simps)
  have "status (gameState ?a) = playing" using Cons.prems(1) by simp
  moreover have "wrong_clicks ?a es" using rest by (induction es) (auto elim: wrong_clicks.elims)
  ultimately obtain t where t: "run es ?a = ?a \<lparr> gameState := (gameState ?a) \<lparr> timeLeft := t \<rparr> \<rparr>"
    "0 \<le> timeLeft (gameState ?a) \<longrightarrow> 0 \<le> t"
    using Cons.IH [of ?a] by blast
  show ?case
    by (intro exI [of _ t]) (use t st in simp)
qed

text \<open>
  C10. The selection handler does not check the range of the cell index: in a playing
  state every integer index other than the variant index, negative or beyond the grid
  included, is handled as an incorrect selection and costs the penalty
  \<open>timeLeft = max(0, timeLeft - 3)\<close>; it is neither rejected nor ignored.
\<close>

theorem wrong_index_penalised:
  assumes "status (gameState a) = playing" and "i \<noteq> diffIndex (colors a)"
  shows "handleBlockClick i d a =
           a \<lparr> gameState := (gameState a) \<lparr> timeLeft := max 0 (timeLeft (gameState a) - 3) \<rparr> \<rparr>
       \<and> step (Select i d) a = handleBlockClick i d a
       \<and> timeLeft (gameState (handleBlockClick i d a)) = max 0 (timeLeft (gameState a) - 3)"
  using assms by (simp add: wrong_click step_Select del: step.simps)


theorem wrong_index_penalised_witness:
  "status (gameState (step (Start halves) initialApp)) = playing
   \<and> (- 1) \<noteq> diffIndex (colors (step (Start halves) initialApp))
   \<and> timeLeft (gameState (handleBlockClick (- 1) halves (step (Start halves) initialApp))) = 27
   \<and> 100 \<noteq> diffIndex (colors (step (Start halves) initialApp))
   \<and> timeLeft (gameState (handleBlockClick 100 halves (step (Start halves) initialApp))) = 27"
proof -
  let ?a = "step (Start halves) initialApp"
  have p: "status (gameState ?a) = playing" by (simp add: started_gameState del: step.simps)
  have q: "(- 1) \<noteq> diffIndex (colors ?a)" "100 \<noteq> diffIndex (colors ?a)"
    by (simp_all add: started_diffIndex_halves del: step.simps)
  have t: "timeLeft (gameState ?a) = 30" by (simp add: started_gameState del: step.simps)
  from wrong_index_penalised [OF p q(1), of halves] t
  have a: "timeLeft (gameState (handleBlockClick (- 1) halves ?a)) = 27" by simp
  from wrong_index_penalised [OF p q(2), of halves] t
  have b: "timeLeft (gameState (handleBlockClick 100 halves ?a)) = 27" by simp
  from p q a b show ?thesis by blast
qed

text \<open>
  C4. In a playing state an incorrect selection sets \<open>timeLeft\<close> to
  \<open>max(0, timeLeft - 3)\<close> and changes nothing else: score, level, gridSize, status,
  both colours, the variant index and the timer are as before. Two seconds left become
  0, and no non-empty sequence of incorrect selections leaves \<open>timeLeft\<close> below 0 or
  changes anything but \<open>timeLeft\<close>.
\<close>

theorem wrong_selection_frame:
  assumes "status (gameState a) = playing" and "i \<noteq> diffIndex (colors a)"
  shows "timeLeft (gameState (handleBlockClick i d a)) = max 0 (timeLeft (gameState a) - 3)
       \<and> score (gameState (handleBlockClick i d a)) = score (gameState a)
       \<and> level (gameState (handleBlockClick i d a)) = level (gameState a)
       \<and> gridSize (gameState (handleBlockClick i d a)) = gridSize (gameState a)
       \<and> status (gameState (handleBlockClick i d a)) = status (gameState a)
       \<and> colors (handleBlockClick i d a) = colors a
       \<and> intervalActive (handleBlockClick i d a) = intervalActive a
       \<and> 0 \<le> timeLeft (gameState (handleBlockClick i d a))
       \<and> (timeLeft (gameState a) = 2 \<longrightarrow> timeLeft (gameState (handleBlockClick i d a)) = 0)
       \<and> (\<forall>es. wrong_clicks a es \<and> es \<noteq> [] \<longrightarrow>
             0 \<le> timeLeft (gameState (run es a))
             \<and> (run es a) \<lparr> gameState := (gameState (run es a)) \<lparr> timeLeft := timeLeft (gameState a) \<rparr> \<rparr> = a)"
proof -
  have one: "handleBlockClick i d a =
      a \<lparr> gameState := (gameState a) \<lparr> timeLeft := max 0 (timeLeft (gameState a) - 3) \<rparr> \<rparr>"
    using assms by (rule wrong_click)
  have many: "0 \<le> timeLeft (gameState (run es a))
      \<and> (run es a) \<lparr> gameState := (gameState (run es a)) \<lparr> timeLeft := timeLeft (gameState a) \<rparr> \<rparr> = a"
    if "wrong_clicks a es \<and> es \<noteq> []" for es
  proof -
    from run_wrong_clicks [OF assms(1), of es] that
    obtain t where "run es a = a \<lparr> gameState := (gameState a) \<lparr> timeLeft := t \<rparr> \<rparr>" "0 \<le> t"
      by blast
    then show ?thesis by simp
  qed
  show ?thesis unfolding one using many by simp
qed


lemma nearlyOut_eq:
  "nearlyOut = (step (Start halves) initialApp)
     \<lparr> gameState := \<lparr> score = 0, timeLeft = 2, level = 1, status = playing, gridSize = 2 \<rparr> \<rparr>"
proof -
  let ?a = "step (Start halves) initialApp"
  have g: "gameState ?a = \<lparr> score = 0, timeLeft = 30, level = 1, status = playing, gridSize = 2 \<rparr>"
    by (rule started_gameState)
  have i: "intervalActive ?a" by (simp add: started_interval initialApp_def del: step.simps)
  have c: "diffIndex (colors ?a) = 2" by (rule started_diffIndex_halves)
  have w: "handleBlockClick 0 halves b =
      b \<lparr> gameState := (gameState b) \<lparr> timeLeft := max 0 (timeLeft (gameState b) - 3) \<rparr> \<rparr>"
    if "status (gameState b) = playing" "diffIndex (colors b) = 2" for b
    using that by (simp add: wrong_click)
  show ?thesis
    unfolding nearlyOut_def
    by (simp add: numeral_eq_Suc step_Select w g i c intervalCallback_def timerEffect_def
          del: step.simps(1,2))
qed

lemma nearlyOut_gameState:
  "gameState nearlyOut = \<lparr> score = 0, timeLeft = 2, level = 1, status = playing, gridSize = 2 \<rparr>"
  by (simp add: nearlyOut_eq del: step.simps)

lemma nearlyOut_diffIndex: "diffIndex (colors nearlyOut) = 2"
  by (simp add: nearlyOut_eq started_diffIndex_halves del: step.simps)

theorem wrong_selection_frame_witness:
  "status (gameState nearlyOut) = playing
   \<and> 0 \<noteq> diffIndex (colors nearlyOut)
   \<and> timeLeft (gameState nearlyOut) = 2
   \<and> timeLeft (gameState (handleBlockClick 0 halves nearlyOut)) = 0
   \<and> score (gameState (handleBlockClick 0 halves nearlyOut)) = 0
   \<and> level (gameState (handleBlockClick 0 halves nearlyOut)) = 1
   \<and> colors (handleBlockClick 0 halves nearlyOut) = colors nearlyOut
   \<and> 0 \<le> timeLeft (gameState (run [Select 0 halves, Select 3 halves] nearlyOut))"
proof -
  have p: "status (gameState nearlyOut) = playing" by (simp add: nearlyOut_gameState)
  have q: "0 \<noteq> diffIndex (colors nearlyOut)" by (simp add: nearlyOut_diffIndex)
  have t: "timeLeft (gameState nearlyOut) = 2" by (simp add: nearlyOut_gameState)
  have w: "wrong_clicks nearlyOut [Select 0 halves, Select 3 halves]
           \<and> [Select 0 halves, Select 3 halves] \<noteq> []"
    by (simp add: nearlyOut_diffIndex)
  note th = wrong_selection_frame [OF p q, of halves]
  from th t have a: "timeLeft (gameState (handleBlockClick 0 halves nearlyOut)) = 0" by blast
  from th have b: "score (gameState (handleBlockClick 0 halves nearlyOut)) = score (gameState nearlyOut)"
    and c: "level (gameState (handleBlockClick 0 halves nearlyOut)) = level (gameState nearlyOut)"
    and d: "colors (handleBlockClick 0 halves nearlyOut) = colors nearlyOut"
    by blast+
  from th w have e: "0 \<le> timeLeft (gameState (run [Select 0 halves, Select 3 halves] nearlyOut))"
    by blast
  from b c have "score (gameState (handleBlockClick 0 halves nearlyOut)) = 0"
    "level (gameState (handleBlockClick 0 halves nearlyOut)) = 1"
    by (simp_all add: nearlyOut_gameState)
  with p q t a d e show ?thesis by blast
qed

section \<open>Correct selections\<close>

lemma start_then_correct:
  "gameState (step (Select (diffIndex (colors (step (Start d1) a0))) d2) (step (Start d1) a0)) =
     \<lparr> score = 1, timeLeft = 31, level = 2, status = playing, gridSize = 2 \<rparr>"
proof -
  let ?a = "step (Start d1) a0"
  have s1: "gameState ?a = \<lparr> score = 0, timeLeft = 30, level = 1, status = playing, gridSize = 2 \<rparr>"
    by (rule started_gameState)
  have "gameState (handleBlockClick (diffIndex (colors ?a)) d2 ?a) =
           \<lparr> score = 1, timeLeft = 31, level = 2, status = playing, gridSize = 2 \<rparr>"
    by (simp add: handleBlockClick_def generateLevel_def Let_def s1 newGridSize_div del: step.simps)
  then show ?thesis by (simp only: step_Select)
qed



section \<open>The timer\<close>

lemma run_append: "run (xs @ ys) a = run ys (run xs a)"
  by (induction xs arbitrary: a) simp_all

lemma step_Tick_playing:
  "intervalActive a \<Longrightarrow> status (gameState a) = playing \<Longrightarrow>
   step Tick a =
     (if timeLeft (gameState a) \<le> 1
      then a \<lparr> intervalActive := False,
               gameState := (gameState a) \<lparr> timeLeft := 0, status := gameover \<rparr> \<rparr>
      else a \<lparr> gameState := (gameState a) \<lparr> timeLeft := timeLeft (gameState a) - 1 \<rparr> \<rparr>)"
  by (simp add: intervalCallback_def timerEffect_def)

lemma timer_step:
  assumes "(status (gameState a) = playing) = intervalActive a"
  shows "(status (gameState (step e a)) = playing) = intervalActive (step e a)"
proof (cases e)
  case (Start d)
  show ?thesis
    unfolding Start using assms
    by (simp add: started_gameState started_interval del: step.simps)
next
  case (Select i d)
  show ?thesis
    unfolding Select step_Select using assms
    by (simp add: handleBlockClick_def generateLevel_def Let_def)
next
  case Tick
  show ?thesis
    unfolding Tick using assms by (auto simp: intervalCallback_def timerEffect_def)
qed

lemma timer_run:
  "(status (gameState a) = playing) = intervalActive a \<Longrightarrow>
   (status (gameState (run es a)) = playing) = intervalActive (run es a)"
proof (induction es arbitrary: a)
  case Nil
  then show ?case by simp
next
  case (Cons e es)
  from Cons.prems have "(status (gameState (step e a)) = playing) = intervalActive (step e a)"
    by (rule timer_step)
  then show ?case using Cons.IH [of "step e a"] by simp
qed

lemma timer_reachable:
  "(status (gameState (run es initialApp)) = playing) = intervalActive (run es initialApp)"
  by (rule timer_run) (simp add: initialApp_def)

lemma ticks_without_interval: "\<not> intervalActive a \<Longrightarrow> run (replicate n Tick) a = a"
  by (induction n) simp_all

lemma countdown:
  "intervalActive a \<Longrightarrow> status (gameState a) = playing \<Longrightarrow>
   timeLeft (gameState a) = int (Suc n) \<Longrightarrow>
   run (replicate (Suc n) Tick) a =
     a \<lparr> intervalActive := False,
         gameState := (gameState a) \<lparr> timeLeft := 0, status := gameover \<rparr> \<rparr>"
proof (induction n arbitrary: a)
  case 0
  then show ?case by (simp add: step_Tick_playing del: step.simps)
next
  case (Suc n)
  let ?b = "a \<lparr> gameState := (gameState a) \<lparr> timeLeft := timeLeft (gameState a) - 1 \<rparr> \<rparr>"
  have st: "step Tick a = ?b"
    using Suc.prems by (simp add: step_Tick_playing del: step.simps)
  have "run (replicate (Suc n) Tick) ?b =
      ?b \<lparr> intervalActive := False,
           gameState := (gameState ?b) \<lparr> timeLeft := 0, status := gameover \<rparr> \<rparr>"
    using Suc.prems by (intro Suc.IH) simp_all
  then show ?case
    using st by (simp del: step.simps)
qed

lemma start_then_thirty_ticks:
  "gameState (run (es0 @ Start d # replicate 30 Tick) initialApp) =
     \<lparr> score = 0, timeLeft = 0, level = 1, status = gameover, gridSize = 2 \<rparr>"
proof -
  let ?s = "step (Start d) (run es0 initialApp)"
  have g: "gameState ?s = \<lparr> score = 0, timeLeft = 30, level = 1, status = playing, gridSize = 2 \<rparr>"
    by (rule started_gameState)
  have "?s = run (es0 @ [Start d]) initialApp" by (simp add: run_append)
  then have i: "intervalActive ?s"
    using timer_reachable [of "es0 @ [Start d]"] g by simp
  have "run (replicate (Suc 29) Tick) ?s =
      ?s \<lparr> intervalActive := False,
           gameState := (gameState ?s) \<lparr> timeLeft := 0, status := gameover \<rparr> \<rparr>"
    using i g by (intro countdown) simp_all
  moreover have "Suc 29 = 30" by simp
  ultimately have "run (replicate 30 Tick) ?s =
      ?s \<lparr> intervalActive := False,
           gameState := (gameState ?s) \<lparr> timeLeft := 0, status := gameover \<rparr> \<rparr>"
    by (simp only:)
  then show "gameState (run (es0 @ Start d # replicate 30 Tick) initialApp) =
      \<lparr> score = 0, timeLeft = 0, level = 1, status = gameover, gridSize = 2 \<rparr>"
    using g by (simp add: run_append del: step.simps)
qed

text \<open>
  C3. In every state with status playing and \<open>timeLeft > 0\<close> in which the interval
  is scheduled, which is the case in every reachable playing state, a tick takes
  exactly 1 from \<open>timeLeft\<close> and keeps the status playing, except that at
  \<open>timeLeft = 1\<close>, where the decrement would reach 0, it sets \<open>timeLeft = 0\<close> and
  the status to gameover, clears the interval, and no later tick changes anything.
  Hence a start followed by 30 ticks and no selection ends with \<open>timeLeft = 0\<close>,
  status gameover and score 0.
\<close>

theorem tick_counts_down:
  assumes "status (gameState a) = playing" and "0 < timeLeft (gameState a)"
    and "intervalActive a \<or> a = run es initialApp"
  shows "(1 < timeLeft (gameState a) \<longrightarrow>
            step Tick a =
              a \<lparr> gameState := (gameState a) \<lparr> timeLeft := timeLeft (gameState a) - 1 \<rparr> \<rparr>)
       \<and> (timeLeft (gameState a) = 1 \<longrightarrow>
            step Tick a =
              a \<lparr> intervalActive := False,
                  gameState := (gameState a) \<lparr> timeLeft := 0, status := gameover \<rparr> \<rparr>
            \<and> (\<forall>n. run (replicate n Tick) (step Tick a) = step Tick a))
       \<and> gameState (run (es0 @ Start d # replicate 30 Tick) initialApp) =
            \<lparr> score = 0, timeLeft = 0, level = 1, status = gameover, gridSize = 2 \<rparr>"
proof -
  have act: "intervalActive a"
    using timer_reachable [of es] assms(1,3) by auto
  note tick = step_Tick_playing [OF act assms(1)]
  have dec: "1 < timeLeft (gameState a) \<longrightarrow>
      step Tick a = a \<lparr> gameState := (gameState a) \<lparr> timeLeft := timeLeft (gameState a) - 1 \<rparr> \<rparr>"
    using tick by simp
  have over: "timeLeft (gameState a) = 1 \<longrightarrow>
      step Tick a =
        a \<lparr> intervalActive := False,
            gameState := (gameState a) \<lparr> timeLeft := 0, status := gameover \<rparr> \<rparr>
      \<and> (\<forall>n. run (replicate n Tick) (step Tick a) = step Tick a)"
  proof
    assume one: "timeLeft (gameState a) = 1"
    then have st: "step Tick a =
        a \<lparr> intervalActive := False,
            gameState := (gameState a) \<lparr> timeLeft := 0, status := gameover \<rparr> \<rparr>"
      using tick by simp
    then have "\<not> intervalActive (step Tick a)" by simp
    then have "\<forall>n. run (replicate n Tick) (step Tick a) = step Tick a"
      by (simp add: ticks_without_interval del: step.simps)
    with st show "step Tick a =
        a \<lparr> intervalActive := False,
            gameState := (gameState a) \<lparr> timeLeft := 0, status := gameover \<rparr> \<rparr>
      \<and> (\<forall>n. run (replicate n Tick) (step Tick a) = step Tick a)" by blast
  qed
  have scen: "gameState (run (es0 @ Start d # replicate 30 Tick) initialApp) =
      \<lparr> score = 0, timeLeft = 0, level = 1, status = gameover, gridSize = 2 \<rparr>"
    by (rule start_then_thirty_ticks)
  from dec over scen show ?thesis by blast
qed

theorem tick_counts_down_witness:
  "status (gameState (run [Start halves] initialApp)) = playing
   \<and> 0 < timeLeft (gameState (run [Start halves] initialApp))
   \<and> timeLeft (gameState (step Tick (run [Start halves] initialApp))) = 29
   \<and> status (gameState (step Tick (run [Start halves] initialApp))) = playing
   \<and> status (gameState (run (Start halves # replicate 30 Tick) initialApp)) = gameover
   \<and> timeLeft (gameState (run (Start halves # replicate 30 Tick) initialApp)) = 0
   \<and> score (gameState (run (Start halves # replicate 30 Tick) initialApp)) = 0"
proof -
  let ?a = "run [Start halves] initialApp"
  have g: "gameState ?a = \<lparr> score = 0, timeLeft = 30, level = 1, status = playing, gridSize = 2 \<rparr>"
    using started_gameState [of halves initialApp] by (simp del: step.simps)
  have p: "status (gameState ?a) = playing" and q: "0 < timeLeft (gameState ?a)"
    by (simp_all add: g del: step.simps run.simps)
  have r: "intervalActive ?a \<or> ?a = run [Start halves] initialApp" by simp
  note th = tick_counts_down [OF p q r, of "[]" halves]
  from th g have "step Tick ?a =
      ?a \<lparr> gameState := (gameState ?a) \<lparr> timeLeft := timeLeft (gameState ?a) - 1 \<rparr> \<rparr>"
    by (simp del: step.simps run.simps)
  then have a: "timeLeft (gameState (step Tick ?a)) = 29" "status (gameState (step Tick ?a)) = playing"
    by (simp_all add: g del: step.simps run.simps)
  from th have "gameState (run ([] @ Start halves # replicate 30 Tick) initialApp) =
      \<lparr> score = 0, timeLeft = 0, level = 1, status = gameover, gridSize = 2 \<rparr>" by blast
  then have b: "status (gameState (run (Start halves # replicate 30 Tick) initialApp)) = gameover"
    "timeLeft (gameState (run (Start halves # replicate 30 Tick) initialApp)) = 0"
    "score (gameState (run (Start halves # replicate 30 Tick) initialApp)) = 0"
    by (simp_all del: step.simps run.simps)
  from p q a b show ?thesis by blast
qed

section \<open>Laws of a session\<close>

lemma step_timeLeft_nonneg:
  "0 \<le> timeLeft (gameState a) \<Longrightarrow> 0 \<le> timeLeft (gameState (step e a))"
proof (cases e)
  case (Start d)
  show ?thesis unfolding Start by (simp add: started_gameState del: step.simps)
next
  case (Select i d)
  assume "0 \<le> timeLeft (gameState a)"
  then show ?thesis
    unfolding Select step_Select
    by (simp add: handleBlockClick_def generateLevel_def Let_def)
next
  case Tick
  assume "0 \<le> timeLeft (gameState a)"
  then show ?thesis
    unfolding Tick by (simp add: intervalCallback_def timerEffect_def)
qed

lemma run_timeLeft_nonneg:
  "0 \<le> timeLeft (gameState a) \<Longrightarrow> 0 \<le> timeLeft (gameState (run es a))"
  by (induction es arbitrary: a) (simp_all add: step_timeLeft_nonneg del: step.simps)

lemma step_score_level_mono:
  "\<not> is_start e \<Longrightarrow>
   score (gameState a) \<le> score (gameState (step e a))
   \<and> level (gameState a) \<le> level (gameState (step e a))"
proof (cases e)
  case (Start d)
  assume "\<not> is_start e"
  then show ?thesis unfolding Start by simp
next
  case (Select i d)
  show ?thesis
    unfolding Select step_Select
    by (simp add: handleBlockClick_def generateLevel_def Let_def)
next
  case Tick
  show ?thesis
    unfolding Tick by (simp add: intervalCallback_def timerEffect_def)
qed

lemma run_score_level_mono:
  "\<not> list_ex is_start es \<Longrightarrow>
   score (gameState a) \<le> score (gameState (run es a))
   \<and> level (gameState a) \<le> level (gameState (run es a))"
proof (induction es arbitrary: a)
  case Nil
  then show ?case by simp
next
  case (Cons e es)
  then have e: "\<not> is_start e" and es: "\<not> list_ex is_start es" by simp_all
  from step_score_level_mono [OF e, of a] Cons.IH [OF es, of "step e a"]
  show ?case by (simp del: step.simps)
qed

lemma step_gameover:
  "\<not> is_start e \<Longrightarrow> status (gameState a) = gameover \<Longrightarrow>
   status (gameState (step e a)) = gameover
   \<and> score (gameState (step e a)) = score (gameState a)
   \<and> level (gameState (step e a)) = level (gameState a)
   \<and> gridSize (gameState (step e a)) = gridSize (gameState a)"
proof (cases e)
  case (Start d)
  assume "\<not> is_start e"
  then show ?thesis unfolding Start by simp
next
  case (Select i d)
  assume "status (gameState a) = gameover"
  then show ?thesis
    unfolding Select step_Select by (simp add: handleBlockClick_def)
next
  case Tick
  assume "status (gameState a) = gameover"
  then show ?thesis
    unfolding Tick by (simp add: intervalCallback_def timerEffect_def)
qed

lemma run_gameover:
  "\<not> list_ex is_start es \<Longrightarrow> status (gameState a) = gameover \<Longrightarrow>
   status (gameState (run es a)) = gameover
   \<and> score (gameState (run es a)) = score (gameState a)
   \<and> level (gameState (run es a)) = level (gameState a)
   \<and> gridSize (gameState (run es a)) = gridSize (gameState a)"
proof (induction es arbitrary: a)
  case Nil
  then show ?case by simp
next
  case (Cons e es)
  then have e: "\<not> is_start e" and es: "\<not> list_ex is_start es" by simp_all
  from step_gameover [OF e Cons.prems(2)] Cons.IH [OF es, of "step e a"]
  show ?case by (simp del: step.simps)
qed

text \<open>
  C5. In every state reached from the initial one by any sequence of start, selection
  and tick events, \<open>timeLeft\<close> is not negative; along any further events that contain
  no start, score and level do not decrease; and if the status is gameover, it stays
  gameover and score, level and gridSize stay as they are until the next start.
\<close>

theorem session_laws:
  assumes "a = run es initialApp" and "\<not> list_ex is_start es'"
  shows "0 \<le> timeLeft (gameState a)
       \<and> score (gameState a) \<le> score (gameState (run es' a))
       \<and> level (gameState a) \<le> level (gameState (run es' a))
       \<and> (status (gameState a) = gameover \<longrightarrow>
            status (gameState (run es' a)) = gameover
            \<and> score (gameState (run es' a)) = score (gameState a)
            \<and> level (gameState (run es' a)) = level (gameState a)
            \<and> gridSize (gameState (run es' a)) = gridSize (gameState a))"
proof -
  have "0 \<le> timeLeft (gameState initialApp)" by (simp add: initialApp_def INITIAL_TIME_def)
  then have t: "0 \<le> timeLeft (gameState a)" unfolding assms(1) by (rule run_timeLeft_nonneg)
  note m = run_score_level_mono [OF assms(2), of a]
  note g = run_gameover [OF assms(2), of a]
  from t m g show ?thesis by blast
qed


theorem session_laws_witness:
  "\<not> list_ex is_start [Select 2 halves, Tick, Select 0 halves]
   \<and> status (gameState (run (Start halves # replicate 30 Tick) initialApp)) = gameover
   \<and> 0 \<le> timeLeft (gameState (run (Start halves # replicate 30 Tick) initialApp))
   \<and> status (gameState (run [Select 2 halves, Tick, Select 0 halves]
        (run (Start halves # replicate 30 Tick) initialApp))) = gameover
   \<and> score (gameState (run [Select 2 halves, Tick, Select 0 halves]
        (run (Start halves # replicate 30 Tick) initialApp))) = 0
   \<and> level (gameState (run [Select 2 halves, Tick, Select 0 halves]
        (run (Start halves # replicate 30 Tick) initialApp))) = 1
   \<and> gridSize (gameState (run [Select 2 halves, Tick, Select 0 halves]
        (run (Start halves # replicate 30 Tick) initialApp))) = 2"
proof -
  let ?a = "run (Start halves # replicate 30 Tick) initialApp"
  let ?es = "[Select 2 halves, Tick, Select 0 halves]"
  have n: "\<not> list_ex is_start ?es" by simp
  have g: "gameState ?a =
      \<lparr> score = 0, timeLeft = 0, level = 1, status = gameover, gridSize = 2 \<rparr>"
    using start_then_thirty_ticks [of "[]" halves] by (simp only: append_Nil)
  have p: "status (gameState ?a) = gameover" by (simp only: g GameState.select_convs)
  note th = session_laws [OF refl n, of "Start halves # replicate 30 Tick"]
  from th have t: "0 \<le> timeLeft (gameState ?a)" by blast
  from th p have "status (gameState (run ?es ?a)) = gameover
      \<and> score (gameState (run ?es ?a)) = score (gameState ?a)
      \<and> level (gameState (run ?es ?a)) = level (gameState ?a)
      \<and> gridSize (gameState (run ?es ?a)) = gridSize (gameState ?a)" by blast
  then have r: "status (gameState (run ?es ?a)) = gameover"
      "score (gameState (run ?es ?a)) = 0"
      "level (gameState (run ?es ?a)) = 1"
      "gridSize (gameState (run ?es ?a)) = 2"
    by (simp_all only: g GameState.select_convs)
  from n p t r show ?thesis by blast
qed

section \<open>The variant colour\<close>

lemma diff_magnitude_ge_2: "2 \<le> diff_magnitude lvl"
  by (simp add: diff_magnitude_def)

lemma getDifferentColor_channels:
  "h (getDifferentColor b lvl r) = h b
   \<and> (if r > 0.5
       then s (getDifferentColor b lvl r) = s b
            \<and> \<bar>l (getDifferentColor b lvl r) - l b\<bar> = diff_magnitude lvl
       else l (getDifferentColor b lvl r) = l b
            \<and> \<bar>s (getDifferentColor b lvl r) - s b\<bar> = diff_magnitude lvl)"
  using diff_magnitude_ge_2 [of lvl] by (simp add: getDifferentColor_def Let_def)

lemma getDifferentColor_neq: "getDifferentColor b lvl r \<noteq> b"
proof
  assume e: "getDifferentColor b lvl r = b"
  have "\<bar>l (getDifferentColor b lvl r) - l b\<bar> = diff_magnitude lvl
      \<or> \<bar>s (getDifferentColor b lvl r) - s b\<bar> = diff_magnitude lvl"
    using getDifferentColor_channels [of b lvl r] by (auto split: if_splits)
  then have "diff_magnitude lvl = 0" unfolding e by simp
  then show False using diff_magnitude_ge_2 [of lvl] by simp
qed

text \<open>
  C1. For every base colour and every level of at least 1, \<open>getDifferentColor\<close>
  returns a colour with the hue of the base that differs from it in exactly one of
  saturation and lightness, the other being unchanged, and the absolute difference in
  the changed channel is \<open>max(2, 40 / (1 + log2(level + 1) * 0.8))\<close> (in exact real
  arithmetic).
\<close>

theorem variant_differs_in_one_channel:
  assumes "1 \<le> lvl"
  shows "h (getDifferentColor b lvl r) = h b
       \<and> ((s (getDifferentColor b lvl r) = s b
            \<and> \<bar>l (getDifferentColor b lvl r) - l b\<bar> = max 2 (40 / (1 + log 2 (real_of_int lvl + 1) * 0.8)))
          \<or> (l (getDifferentColor b lvl r) = l b
            \<and> \<bar>s (getDifferentColor b lvl r) - s b\<bar> = max 2 (40 / (1 + log 2 (real_of_int lvl + 1) * 0.8))))
       \<and> (s (getDifferentColor b lvl r) \<noteq> s b) = (l (getDifferentColor b lvl r) = l b)"
proof -
  have d: "diff_magnitude lvl = max 2 (40 / (1 + log 2 (real_of_int lvl + 1) * 0.8))"
    by (simp add: diff_magnitude_def BASE_DIFFERENCE_def)
  have pos: "0 < diff_magnitude lvl" using diff_magnitude_ge_2 [of lvl] by simp
  note c = getDifferentColor_channels [of b lvl r]
  show ?thesis
  proof (cases "r > 0.5")
    case True
    with c have "h (getDifferentColor b lvl r) = h b" "s (getDifferentColor b lvl r) = s b"
      "\<bar>l (getDifferentColor b lvl r) - l b\<bar> = diff_magnitude lvl" by simp_all
    moreover from this pos have "l (getDifferentColor b lvl r) \<noteq> l b" by auto
    ultimately show ?thesis unfolding d by simp
  next
    case False
    with c have "h (getDifferentColor b lvl r) = h b" "l (getDifferentColor b lvl r) = l b"
      "\<bar>s (getDifferentColor b lvl r) - s b\<bar> = diff_magnitude lvl" by simp_all
    moreover from this pos have "s (getDifferentColor b lvl r) \<noteq> s b" by auto
    ultimately show ?thesis unfolding d by simp
  qed
qed


theorem variant_differs_in_one_channel_witness:
  "(1::int) \<le> 1
   \<and> h (getDifferentColor \<lparr> h = 180, s = 60, l = 50 \<rparr> 1 (1/2)) = 180
   \<and> l (getDifferentColor \<lparr> h = 180, s = 60, l = 50 \<rparr> 1 (1/2)) = 50
   \<and> \<bar>s (getDifferentColor \<lparr> h = 180, s = 60, l = 50 \<rparr> 1 (1/2)) - 60\<bar> = 200 / 9
   \<and> h (getDifferentColor \<lparr> h = 180, s = 60, l = 80 \<rparr> 1 (9/10)) = 180
   \<and> s (getDifferentColor \<lparr> h = 180, s = 60, l = 80 \<rparr> 1 (9/10)) = 60
   \<and> \<bar>l (getDifferentColor \<lparr> h = 180, s = 60, l = 80 \<rparr> 1 (9/10)) - 80\<bar> = 200 / 9"
proof -
  let ?b = "\<lparr> h = 180, s = 60, l = 50 \<rparr>" and ?c = "\<lparr> h = 180, s = 60, l = 80 \<rparr>"
  have p: "(1::int) \<le> 1" by simp
  have m: "max 2 (40 / (1 + log 2 (real_of_int 1 + 1) * 0.8)) = 200 / 9" by simp
  have lb: "l (getDifferentColor ?b 1 (1/2)) = 50"
    and sc: "s (getDifferentColor ?c 1 (9/10)) = 60"
    by (simp_all add: getDifferentColor_def Let_def)
  have tb: "h (getDifferentColor ?b 1 (1/2)) = 180
       \<and> ((s (getDifferentColor ?b 1 (1/2)) = 60 \<and> \<bar>l (getDifferentColor ?b 1 (1/2)) - 50\<bar> = 200 / 9)
          \<or> (l (getDifferentColor ?b 1 (1/2)) = 50 \<and> \<bar>s (getDifferentColor ?b 1 (1/2)) - 60\<bar> = 200 / 9))
       \<and> (s (getDifferentColor ?b 1 (1/2)) \<noteq> 60) = (l (getDifferentColor ?b 1 (1/2)) = 50)"
    using variant_differs_in_one_channel [OF p, of ?b "1/2"] unfolding m
    by (simp only: Color.select_convs)
  have tc: "h (getDifferentColor ?c 1 (9/10)) = 180
       \<and> ((s (getDifferentColor ?c 1 (9/10)) = 60 \<and> \<bar>l (getDifferentColor ?c 1 (9/10)) - 80\<bar> = 200 / 9)
          \<or> (l (getDifferentColor ?c 1 (9/10)) = 80 \<and> \<bar>s (getDifferentColor ?c 1 (9/10)) - 60\<bar> = 200 / 9))
       \<and> (s (getDifferentColor ?c 1 (9/10)) \<noteq> 60) = (l (getDifferentColor ?c 1 (9/10)) = 80)"
    using variant_differs_in_one_channel [OF p, of ?c "9/10"] unfolding m
    by (simp only: Color.select_convs)
  from tb have hb: "h (getDifferentColor ?b 1 (1/2)) = 180" by blast
  from tc have hc: "h (getDifferentColor ?c 1 (9/10)) = 180" by blast
  from tb lb have db: "\<bar>s (getDifferentColor ?b 1 (1/2)) - 60\<bar> = 200 / 9" by fastforce
  from tc sc have dc: "\<bar>l (getDifferentColor ?c 1 (9/10)) - 80\<bar> = 200 / 9" by fastforce
  from p hb lb db hc sc dc show ?thesis by blast
qed

section \<open>The difficulty curve\<close>

lemma log_level_ge_1: "1 \<le> lvl \<Longrightarrow> 1 \<le> log 2 (real_of_int lvl + 1)"
proof -
  assume "1 \<le> lvl"
  then have "(2::real) \<le> real_of_int lvl + 1" by simp
  then have "log 2 2 \<le> log 2 (real_of_int lvl + 1)" by (subst log_le_cancel_iff) simp_all
  then show ?thesis by simp
qed

lemma log_level_mono:
  "1 \<le> lvl \<Longrightarrow> lvl \<le> lvl' \<Longrightarrow> log 2 (real_of_int lvl + 1) \<le> log 2 (real_of_int lvl' + 1)"
  by (subst log_le_cancel_iff) simp_all

lemma diff_magnitude_eq_2_iff:
  assumes "1 \<le> lvl"
  shows "(diff_magnitude lvl = 2) = (95 / 4 \<le> log 2 (real_of_int lvl + 1))"
proof -
  let ?x = "log 2 (real_of_int lvl + 1)"
  have x: "1 \<le> ?x" using assms by (rule log_level_ge_1)
  then have den: "0 < 1 + ?x * 0.8" by simp
  have "(diff_magnitude lvl = 2) = (40 / (1 + ?x * 0.8) \<le> 2)"
    by (auto simp: diff_magnitude_def BASE_DIFFERENCE_def max_def)
  also have "\<dots> = (40 \<le> 2 * (1 + ?x * 0.8))"
    using den by (simp add: pos_divide_le_eq mult.commute)
  also have "\<dots> = (95 / 4 \<le> ?x)" by auto
  finally show ?thesis .
qed

lemma diff_magnitude_antimono:
  assumes "1 \<le> lvl" and "lvl \<le> lvl'"
  shows "diff_magnitude lvl' \<le> diff_magnitude lvl"
proof -
  let ?x = "log 2 (real_of_int lvl + 1)" and ?y = "log 2 (real_of_int lvl' + 1)"
  have x: "1 \<le> ?x" using assms(1) by (rule log_level_ge_1)
  have xy: "?x \<le> ?y" using assms by (rule log_level_mono)
  have "40 / (1 + ?y * 0.8) \<le> 40 / (1 + ?x * 0.8)"
    using x xy by (intro divide_left_mono) (simp_all add: add_pos_nonneg)
  moreover have "B \<le> A \<Longrightarrow> max 2 B \<le> max 2 A" for A B :: real
    by (auto simp: max_def)
  ultimately show ?thesis
    unfolding diff_magnitude_def BASE_DIFFERENCE_def by blast
qed

lemma diff_magnitude_strict:
  assumes "1 \<le> lvl" and "lvl < lvl'" and "2 < diff_magnitude lvl"
  shows "diff_magnitude lvl' < diff_magnitude lvl"
proof -
  let ?x = "log 2 (real_of_int lvl + 1)" and ?y = "log 2 (real_of_int lvl' + 1)"
  have x: "1 \<le> ?x" using assms(1) by (rule log_level_ge_1)
  have xy: "?x < ?y" using assms(1,2) by (subst log_less_cancel_iff) simp_all
  have "40 / (1 + ?y * 0.8) < 40 / (1 + ?x * 0.8)"
    using x xy by (intro divide_strict_left_mono) (simp_all add: add_pos_nonneg)
  moreover have "B < A \<Longrightarrow> 2 < max 2 A \<Longrightarrow> max 2 B < max 2 A" for A B :: real
    by (auto simp: max_def split: if_splits)
  ultimately show ?thesis
    using assms(3) unfolding diff_magnitude_def BASE_DIFFERENCE_def by blast
qed

lemma log_threshold:
  assumes "1 \<le> lvl"
  shows "(95 / 4 \<le> log 2 (real_of_int lvl + 1)) = (14107900 \<le> lvl)"
proof -
  let ?v = "real_of_int lvl + 1"
  have v: "0 < ?v" using assms by simp
  have "(95 / 4 \<le> log 2 ?v) = (95 \<le> 4 * log 2 ?v)" by auto
  also have "4 * log 2 ?v = log 2 (?v ^ 4)" using v by (simp add: log_nat_power)
  finally have s1: "(95 / 4 \<le> log 2 ?v) = (2 powr 95 \<le> ?v ^ 4)"
    using v by (simp add: le_log_iff)
  have s2: "(2::real) powr 95 = 2 ^ 95" by (simp only: powr_numeral)
  have s3: "((2::real) ^ 95 \<le> ?v ^ 4) = (14107900 \<le> lvl)"
  proof
    assume a: "(2::real) ^ 95 \<le> ?v ^ 4"
    show "14107900 \<le> lvl"
    proof (rule ccontr)
      assume "\<not> 14107900 \<le> lvl"
      then have "?v \<le> 14107900" by simp
      then have "?v ^ 4 \<le> 14107900 ^ 4" using v by (intro power_mono) simp_all
      also have "\<dots> < (2::real) ^ 95" by simp
      finally show False using a by simp
    qed
  next
    assume "14107900 \<le> lvl"
    then have "14107901 \<le> ?v" by simp
    then have "(14107901::real) ^ 4 \<le> ?v ^ 4" by (intro power_mono) simp_all
    moreover have "(2::real) ^ 95 \<le> 14107901 ^ 4" by simp
    ultimately show "(2::real) ^ 95 \<le> ?v ^ 4" by linarith
  qed
  show ?thesis unfolding s1 s2 s3 ..
qed

lemma diff_magnitude_1: "diff_magnitude 1 = 200 / 9"
  by (simp add: diff_magnitude_def BASE_DIFFERENCE_def)

lemma diff_magnitude_3: "diff_magnitude 3 = 200 / 13"
proof -
  have "log 2 (real_of_int 3 + 1) = log 2 (2 ^ 2)" by simp
  also have "\<dots> = 2" by (subst log_pow_cancel) simp_all
  finally show ?thesis by (simp add: diff_magnitude_def BASE_DIFFERENCE_def)
qed

text \<open>
  The claim C7 as stated, that the magnitude never reaches 2 and keeps decreasing, fails:
  at level 14107900 the quotient is below 2 and \<open>Math.max\<close> returns 2, and the next
  level gives 2 again.
\<close>

theorem diff_magnitude_reaches_2:
  "diff_magnitude 14107900 = 2 \<and> diff_magnitude 14107901 = diff_magnitude 14107900"
  using diff_magnitude_eq_2_iff [of 14107900] log_threshold [of 14107900]
    diff_magnitude_eq_2_iff [of 14107901] log_threshold [of 14107901] by simp

text \<open>
  C7, amended. For every level of at least 1, the perturbation magnitude does not
  increase when the level grows, strictly decreases as long as the level is below
  14107900, is at least 2 and therefore never zero, equals 2 exactly from level
  14107900 on, and converges to 2.
\<close>

theorem difficulty_curve:
  assumes "1 \<le> lvl"
  shows "(\<forall>lvl'. lvl \<le> lvl' \<longrightarrow> diff_magnitude lvl' \<le> diff_magnitude lvl)
       \<and> (\<forall>lvl'. lvl < lvl' \<and> lvl < 14107900 \<longrightarrow> diff_magnitude lvl' < diff_magnitude lvl)
       \<and> 2 \<le> diff_magnitude lvl
       \<and> diff_magnitude lvl \<noteq> 0
       \<and> (diff_magnitude lvl = 2) = (14107900 \<le> lvl)
       \<and> (\<lambda>n. diff_magnitude (int n)) \<longlonglongrightarrow> 2"
proof -
  have two: "(diff_magnitude k = 2) = (14107900 \<le> k)" if "1 \<le> k" for k
    using diff_magnitude_eq_2_iff [OF that] log_threshold [OF that] by simp
  have ge: "2 \<le> diff_magnitude lvl" by (rule diff_magnitude_ge_2)
  have mono: "\<forall>lvl'. lvl \<le> lvl' \<longrightarrow> diff_magnitude lvl' \<le> diff_magnitude lvl"
    using assms by (simp add: diff_magnitude_antimono)
  have strict: "\<forall>lvl'. lvl < lvl' \<and> lvl < 14107900 \<longrightarrow> diff_magnitude lvl' < diff_magnitude lvl"
  proof (intro allI impI)
    fix lvl' assume a: "lvl < lvl' \<and> lvl < 14107900"
    then have "diff_magnitude lvl \<noteq> 2" using two [OF assms] by simp
    with ge have "2 < diff_magnitude lvl" by simp
    with assms a show "diff_magnitude lvl' < diff_magnitude lvl"
      by (intro diff_magnitude_strict) simp_all
  qed
  have "\<forall>n\<ge>14107900. diff_magnitude (int n) = 2"
  proof (intro allI impI)
    fix n :: nat assume "14107900 \<le> n"
    then have "14107900 \<le> int n" "1 \<le> int n" by simp_all
    then show "diff_magnitude (int n) = 2" using two [of "int n"] by simp
  qed
  then have "eventually (\<lambda>n. diff_magnitude (int n) = 2) sequentially"
    unfolding eventually_sequentially by blast
  then have lim: "(\<lambda>n. diff_magnitude (int n)) \<longlonglongrightarrow> 2"
    by (rule tendsto_eventually)
  from mono strict ge two [OF assms] lim show ?thesis by simp
qed

theorem difficulty_curve_witness:
  "(1::int) \<le> 1 \<and> diff_magnitude 3 < diff_magnitude 1 \<and> 2 \<le> diff_magnitude 1
   \<and> diff_magnitude 1 \<noteq> 2 \<and> diff_magnitude 1 = 200 / 9 \<and> diff_magnitude 3 = 200 / 13"
proof -
  have p: "(1::int) \<le> 1" by simp
  note th = difficulty_curve [OF p]
  from th have "\<forall>lvl'. 1 < lvl' \<and> (1::int) < 14107900 \<longrightarrow> diff_magnitude lvl' < diff_magnitude 1"
    by blast
  then have a: "diff_magnitude 3 < diff_magnitude 1" by simp
  from th have b: "2 \<le> diff_magnitude 1" by blast
  from th have "(diff_magnitude 1 = 2) = ((14107900::int) \<le> 1)" by blast
  then have c: "diff_magnitude 1 \<noteq> 2" by simp
  from p a b c diff_magnitude_1 diff_magnitude_3 show ?thesis by blast
qed

section \<open>The variant cell\<close>

lemma floor_index:
  assumes "unit_draw r" and "0 < n"
  shows "0 \<le> \<lfloor>r * real_of_int n\<rfloor> \<and> \<lfloor>r * real_of_int n\<rfloor> < n"
proof -
  from assms have r: "0 \<le> r" "r < 1" by (simp_all add: unit_draw_def)
  from r(1) assms(2) have "0 \<le> r * real_of_int n" by simp
  then have lo: "0 \<le> \<lfloor>r * real_of_int n\<rfloor>" by simp
  from r(2) assms(2) have "r * real_of_int n < 1 * real_of_int n"
    by (intro mult_strict_right_mono) simp_all
  then have hi: "\<lfloor>r * real_of_int n\<rfloor> < n" by (simp add: floor_less_iff)
  from lo hi show ?thesis ..
qed

lemma generateLevel_index:
  assumes "valid_draws d" and "1 \<le> lvl"
  shows "0 \<le> diffIndex (colors (generateLevel lvl d a))
       \<and> diffIndex (colors (generateLevel lvl d a))
           < gridSize (gameState (generateLevel lvl d a))
             * gridSize (gameState (generateLevel lvl d a))"
proof -
  let ?g = "newGridSize lvl"
  have "2 \<le> ?g" using assms(2) by (rule newGridSize_pos)
  then have "0 < ?g * ?g" by simp
  moreover have "unit_draw (r_index d)" using assms(1) by (simp add: valid_draws_def)
  ultimately have "0 \<le> \<lfloor>r_index d * real_of_int (?g * ?g)\<rfloor>
      \<and> \<lfloor>r_index d * real_of_int (?g * ?g)\<rfloor> < ?g * ?g"
    by (intro floor_index)
  then show ?thesis by (simp add: generateLevel_def Let_def)
qed

lemma generateLevel_ok:
  assumes "valid_draws d" and "1 \<le> lvl" and "level (gameState a) = lvl"
  shows "level_ok (generateLevel lvl d a)"
proof -
  have "level (gameState (generateLevel lvl d a)) = lvl"
    "gridSize (gameState (generateLevel lvl d a)) = newGridSize lvl"
    "diff (colors (generateLevel lvl d a)) \<noteq> base (colors (generateLevel lvl d a))"
    using assms(3) by (simp_all add: generateLevel_def Let_def getDifferentColor_neq)
  with generateLevel_index [OF assms(1,2), of a] assms(2)
  show ?thesis unfolding level_ok_def by simp
qed

lemma level_ok_step:
  assumes "valid_event e"
    and "(status (gameState a) = playing) = intervalActive a"
    and "status (gameState a) \<noteq> idle \<longrightarrow> level_ok a"
  shows "status (gameState (step e a)) \<noteq> idle \<longrightarrow> level_ok (step e a)"
proof (cases e)
  case (Start d)
  have same: "gameState (step e a) = gameState (startGame d a)"
    "colors (step e a) = colors (startGame d a)"
    unfolding Start by (simp_all add: timerEffect_def)
  have "level_ok (startGame d a)"
    unfolding startGame_def using assms(1) Start by (intro generateLevel_ok) simp_all
  then show ?thesis unfolding level_ok_def same by blast
next
  case (Select i d)
  show ?thesis
  proof (cases "status (gameState a) = playing \<and> i = diffIndex (colors a)")
    case True
    then have ok: "level_ok a" using assms(3) by simp
    let ?b = "a \<lparr> gameState := (gameState a)
                     \<lparr> score := score (gameState a) + 1,
                       level := level (gameState a) + 1,
                       timeLeft := timeLeft (gameState a) + 1 \<rparr> \<rparr>"
    have "step e a = generateLevel (level (gameState a) + 1) d ?b"
      unfolding Select step_Select using True by (simp add: handleBlockClick_def Let_def)
    moreover have "level_ok (generateLevel (level (gameState a) + 1) d ?b)"
      using assms(1) Select ok by (intro generateLevel_ok) (simp_all add: level_ok_def)
    ultimately show ?thesis by simp
  next
    case False
    then have "step e a = a \<or> step e a =
        a \<lparr> gameState := (gameState a) \<lparr> timeLeft := max 0 (timeLeft (gameState a) - 3) \<rparr> \<rparr>"
      unfolding Select step_Select by (auto simp: handleBlockClick_def)
    then show ?thesis using assms(3) by (auto simp: level_ok_def)
  qed
next
  case Tick
  show ?thesis
    unfolding Tick using assms(2,3)
    by (auto simp: intervalCallback_def timerEffect_def level_ok_def)
qed

lemma level_ok_run:
  "list_all valid_event es \<Longrightarrow>
   (status (gameState a) = playing) = intervalActive a \<Longrightarrow>
   status (gameState a) \<noteq> idle \<longrightarrow> level_ok a \<Longrightarrow>
   status (gameState (run es a)) \<noteq> idle \<longrightarrow> level_ok (run es a)"
proof (induction es arbitrary: a)
  case Nil
  then show ?case by simp
next
  case (Cons e es)
  from Cons.prems have e: "valid_event e" and es: "list_all valid_event es" by simp_all
  have t: "(status (gameState (step e a)) = playing) = intervalActive (step e a)"
    using Cons.prems(2) by (rule timer_step)
  have k: "status (gameState (step e a)) \<noteq> idle \<longrightarrow> level_ok (step e a)"
    using e Cons.prems(2,3) by (rule level_ok_step)
  from Cons.IH [OF es t k] show ?case by simp
qed

lemma level_ok_reachable:
  "list_all valid_event es \<Longrightarrow> status (gameState (run es initialApp)) \<noteq> idle \<Longrightarrow>
   level_ok (run es initialApp)"
  using level_ok_run [of es initialApp] by (simp add: initialApp_def)

lemma filter_upt_index: "k < n \<Longrightarrow> filter (\<lambda>i. i = k) [0 ..< n] = [k]"
proof (induction n)
  case 0
  then show ?case by simp
next
  case (Suc n)
  show ?case
  proof (cases "k = n")
    case True
    have "filter (\<lambda>i. i = n) [0 ..< n] = []" by (simp add: filter_empty_conv)
    then show ?thesis using True by simp
  next
    case False
    with Suc show ?thesis by auto
  qed
qed

lemma gridCells_one_variant:
  assumes "0 \<le> diffIndex (colors a)"
    and "diffIndex (colors a) < gridSize (gameState a) * gridSize (gameState a)"
    and "diff (colors a) \<noteq> base (colors a)"
  shows "length (filter (\<lambda>c. c = diff (colors a)) (gridCells a)) = 1"
proof -
  let ?n = "nat (gridSize (gameState a) * gridSize (gameState a))"
  let ?k = "nat (diffIndex (colors a))"
  have k: "?k < ?n" using assms(1,2) by simp
  have "filter (\<lambda>c. c = diff (colors a)) (gridCells a) =
      map (\<lambda>i. if int i = diffIndex (colors a) then diff (colors a) else base (colors a))
        (filter (\<lambda>i. i = ?k) [0 ..< ?n])"
    unfolding gridCells_def filter_map
    using assms(1,3) by (intro arg_cong [where f = "map _"] filter_cong) (auto simp: comp_def)
  then show ?thesis by (simp add: filter_upt_index [OF k])
qed


text \<open>
  C8. In every state reached by events with proper random draws, once a game has been
  started (after a start and after every correct selection), the variant index lies
  in \<open>[0, gridSize\<^sup>2)\<close> for the grid size of the current level, the grid has
  \<open>gridSize\<^sup>2\<close> cells, and exactly one of them, the one at the variant index, is
  rendered in the variant colour. Every level generated for a level of at least 1
  has its variant index in that range.
\<close>

theorem variant_index_in_grid:
  assumes "list_all valid_event es" and "a = run es initialApp"
    and "status (gameState a) \<noteq> idle"
  shows "0 \<le> diffIndex (colors a)
       \<and> diffIndex (colors a) < gridSize (gameState a) * gridSize (gameState a)
       \<and> gridSize (gameState a) = newGridSize (level (gameState a))
       \<and> length (gridCells a) = nat (gridSize (gameState a) * gridSize (gameState a))
       \<and> length (filter (\<lambda>c. c = diff (colors a)) (gridCells a)) = 1
       \<and> gridCells a ! nat (diffIndex (colors a)) = diff (colors a)
       \<and> (valid_draws d \<and> 1 \<le> lvl \<longrightarrow>
            0 \<le> diffIndex (colors (generateLevel lvl d b))
            \<and> diffIndex (colors (generateLevel lvl d b))
                < gridSize (gameState (generateLevel lvl d b))
                  * gridSize (gameState (generateLevel lvl d b)))"
proof -
  have ok: "level_ok a"
    using assms unfolding assms(2) by (intro level_ok_reachable)
  then have r: "0 \<le> diffIndex (colors a)"
    "diffIndex (colors a) < gridSize (gameState a) * gridSize (gameState a)"
    "gridSize (gameState a) = newGridSize (level (gameState a))"
    "diff (colors a) \<noteq> base (colors a)"
    unfolding level_ok_def by blast+
  have len: "length (gridCells a) = nat (gridSize (gameState a) * gridSize (gameState a))"
    by (simp add: gridCells_def)
  have one: "length (filter (\<lambda>c. c = diff (colors a)) (gridCells a)) = 1"
    using r(1,2,4) by (rule gridCells_one_variant)
  have at: "gridCells a ! nat (diffIndex (colors a)) = diff (colors a)"
    using r(1,2) by (simp add: gridCells_def)
  have gen: "valid_draws d \<and> 1 \<le> lvl \<longrightarrow>
            0 \<le> diffIndex (colors (generateLevel lvl d b))
            \<and> diffIndex (colors (generateLevel lvl d b))
                < gridSize (gameState (generateLevel lvl d b))
                  * gridSize (gameState (generateLevel lvl d b))"
    using generateLevel_index [of d lvl b] by blast
  from r(1,2,3) len one at gen show ?thesis by blast
qed

lemma valid_halves: "valid_draws halves"
  by (simp add: valid_draws_def unit_draw_def halves_def)

theorem variant_index_in_grid_witness:
  "list_all valid_event [Start halves, Select 2 halves]
   \<and> status (gameState (run [Start halves, Select 2 halves] initialApp)) \<noteq> idle
   \<and> 0 \<le> diffIndex (colors (run [Start halves, Select 2 halves] initialApp))
   \<and> diffIndex (colors (run [Start halves, Select 2 halves] initialApp)) < 4
   \<and> length (gridCells (run [Start halves, Select 2 halves] initialApp)) = 4
   \<and> length (filter (\<lambda>c. c = diff (colors (run [Start halves, Select 2 halves] initialApp)))
        (gridCells (run [Start halves, Select 2 halves] initialApp))) = 1"
proof -
  let ?a = "run [Start halves, Select 2 halves] initialApp"
  have v: "list_all valid_event [Start halves, Select 2 halves]" by (simp add: valid_halves)
  have e: "?a = step (Select (diffIndex (colors (step (Start halves) initialApp))) halves)
                  (step (Start halves) initialApp)"
    by (simp add: started_diffIndex_halves del: step.simps)
  have g: "gameState ?a = \<lparr> score = 1, timeLeft = 31, level = 2, status = playing, gridSize = 2 \<rparr>"
    unfolding e by (rule start_then_correct)
  have p: "status (gameState ?a) \<noteq> idle" by (simp add: g del: step.simps run.simps)
  note th = variant_index_in_grid [OF v refl p]
  from th have "0 \<le> diffIndex (colors ?a)"
    "diffIndex (colors ?a) < gridSize (gameState ?a) * gridSize (gameState ?a)"
    "length (gridCells ?a) = nat (gridSize (gameState ?a) * gridSize (gameState ?a))"
    "length (filter (\<lambda>c. c = diff (colors ?a)) (gridCells ?a)) = 1"
    by blast+
  then have r: "0 \<le> diffIndex (colors ?a)" "diffIndex (colors ?a) < 4"
    "length (gridCells ?a) = 4"
    "length (filter (\<lambda>c. c = diff (colors ?a)) (gridCells ?a)) = 1"
    by (simp_all add: g del: step.simps run.simps)
  from v p r show ?thesis by blast
qed

end
